theory Spec2Isabelle
  imports Main "HOL-Library.Sublist"
begin

section \<open>Python library operations used by the program\<close>

text \<open>
  A file is the list of its bytes, and a byte is a \<^typ>\<open>char\<close>.  The operations below are
  the \<^verbatim>\<open>bytes\<close> methods that \<^verbatim>\<open>sn_signing.py\<close> calls.
\<close>

type_synonym bytes = "char list"

definition LF :: char where
  "LF = CHR 0x0A"

definition CR :: char where
  "CR = CHR 0x0D"

definition BOM :: bytes where
  "BOM = [CHR 0xEF, CHR 0xBB, CHR 0xBF]"

text \<open>\<^verbatim>\<open>s.startswith(p)\<close>\<close>

definition startswith :: "'a list \<Rightarrow> 'a list \<Rightarrow> bool" where
  "startswith s p = (take (length p) s = p)"

text \<open>
  \<^verbatim>\<open>s.replace(old, new)\<close>: the occurrences of \<open>old\<close> are replaced from left to right
  and do not overlap.  For an empty \<open>old\<close> Python puts \<open>new\<close> before every element and at
  the end.
\<close>

function replace :: "'a list \<Rightarrow> 'a list \<Rightarrow> 'a list \<Rightarrow> 'a list" where
  "replace old new [] = (if old = [] then new else [])"
| "replace old new (c # cs) =
     (if old = [] then new @ c # replace old new cs
      else if startswith (c # cs) old then new @ replace old new (drop (length old) (c # cs))
      else c # replace old new cs)"
  by pat_completeness auto
termination
  by (relation "measure (\<lambda>(old, new, s). length s)") auto

text \<open>\<^verbatim>\<open>s.split(sep)\<close> for a separator of one element: always at least one piece.\<close>

fun split :: "'a \<Rightarrow> 'a list \<Rightarrow> 'a list list" where
  "split sep [] = [[]]"
| "split sep (c # cs) =
     (if c = sep then [] # split sep cs
      else (case split sep cs of
              [] \<Rightarrow> [[c]]
            | l # ls \<Rightarrow> (c # l) # ls))"

text \<open>\<^verbatim>\<open>sep.join(pieces)\<close>\<close>

fun join :: "'a list \<Rightarrow> 'a list list \<Rightarrow> 'a list" where
  "join sep [] = []"
| "join sep [l] = l"
| "join sep (l # ls) = l @ sep @ join sep ls"

text \<open>
  Whitespace of \<^verbatim>\<open>bytes.strip\<close>, \<^verbatim>\<open>bytes.lstrip\<close>: space, tab, line feed, carriage
  return, vertical tab and form feed.
\<close>

definition is_space_b :: "char \<Rightarrow> bool" where
  "is_space_b c = (c = CHR 0x20 \<or> c = CHR 0x09 \<or> c = CHR 0x0A \<or> c = CHR 0x0D
                   \<or> c = CHR 0x0B \<or> c = CHR 0x0C)"

definition lstrip_b :: "bytes \<Rightarrow> bytes" where
  "lstrip_b s = dropWhile is_space_b s"

definition rstrip_b :: "bytes \<Rightarrow> bytes" where
  "rstrip_b s = rev (dropWhile is_space_b (rev s))"

definition strip_b :: "bytes \<Rightarrow> bytes" where
  "strip_b s = rstrip_b (lstrip_b s)"

text \<open>\<^verbatim>\<open>bytes.lower\<close>: the 26 ASCII capitals become small letters, nothing else changes.\<close>

definition lower_char :: "char \<Rightarrow> char" where
  "lower_char c =
     (if 65 \<le> (of_char c :: nat) \<and> (of_char c :: nat) \<le> 90
      then char_of (of_char c + (32 :: nat)) else c)"

definition lower_b :: "bytes \<Rightarrow> bytes" where
  "lower_b s = map lower_char s"

section \<open>Canonical bytes (\<^verbatim>\<open>sn_signing.canonical_bytes\<close>)\<close>

text \<open>The test of the loop: the line, left-stripped and lower-cased, starts with \<open>sign:\<close>.\<close>

definition is_sign_line_b :: "bytes \<Rightarrow> bool" where
  "is_sign_line_b line = startswith (lower_b (lstrip_b line)) ''sign:''"

text \<open>
  The loop \<^verbatim>\<open>for i, line in enumerate(lines)\<close>: at the first signature line, index \<open>i\<close>,
  it returns \<^verbatim>\<open>b'\n'.join(lines[:i])\<close>; \<open>None\<close> when the loop runs to its end.
\<close>

fun canonical_scan :: "bytes list \<Rightarrow> nat \<Rightarrow> bytes list \<Rightarrow> bytes option" where
  "canonical_scan lines i [] = None"
| "canonical_scan lines i (line # rest) =
     (if is_sign_line_b line then Some (join [LF] (take i lines))
      else canonical_scan lines (Suc i) rest)"

definition remove_bom :: "bytes \<Rightarrow> bytes" where
  "remove_bom content = (if startswith content BOM then drop 3 content else content)"

definition normalize_newlines :: "bytes \<Rightarrow> bytes" where
  "normalize_newlines content = replace [CR] [LF] (replace [CR, LF] [LF] content)"

definition canonical_bytes :: "bytes \<Rightarrow> bytes" where
  "canonical_bytes file =
     (let content = normalize_newlines (remove_bom file);
          lines = split LF content
      in case canonical_scan lines 0 lines of
           Some canonical \<Rightarrow> canonical
         | None \<Rightarrow> content)"

subsection \<open>The canonical bytes as the specification words them\<close>

text \<open>
  One pass over the bytes: a CR followed by LF becomes one LF, any other CR becomes LF.
\<close>

fun normalize_spec :: "bytes \<Rightarrow> bytes" where
  "normalize_spec [] = []"
| "normalize_spec [c] = [if c = CR then LF else c]"
| "normalize_spec (c # d # cs) =
     (if c = CR \<and> d = LF then LF # normalize_spec cs
      else if c = CR then LF # normalize_spec (d # cs)
      else c # normalize_spec (d # cs))"

definition canonical_spec :: "bytes \<Rightarrow> bytes" where
  "canonical_spec file =
     (let content = normalize_spec (if take 3 file = BOM then drop 3 file else file);
          lines = split LF content
      in if list_ex is_sign_line_b lines
         then join [LF] (takeWhile (\<lambda>l. \<not> is_sign_line_b l) lines)
         else content)"

section \<open>Properties of the library operations\<close>

lemma split_not_Nil: "split sep s \<noteq> []"
  by (induction s) (auto split: list.splits)

lemma join_split: "join [sep] (split sep s) = s"
proof (induction s)
  case Nil
  then show ?case by simp
next
  case (Cons c cs)
  obtain l ls where sp: "split sep cs = l # ls"
    using split_not_Nil [of sep cs] by (cases "split sep cs") auto
  show ?case
  proof (cases "c = sep")
    case True
    with Cons sp show ?thesis by simp
  next
    case False
    with Cons sp show ?thesis by (cases ls) auto
  qed
qed

lemma replace_single: "replace [x] [y] s = map (\<lambda>c. if c = x then y else c) s"
  by (induction s) (auto simp: startswith_def)

lemma normalize_newlines_spec: "normalize_newlines s = normalize_spec s"
proof -
  have "map (\<lambda>c. if c = CR then LF else c) (replace [CR, LF] [LF] s) = normalize_spec s"
  proof (induction s rule: normalize_spec.induct)
    case 1
    then show ?case by simp
  next
    case (2 c)
    then show ?case by (simp add: startswith_def CR_def LF_def)
  next
    case (3 c d cs)
    then show ?case by (auto simp: startswith_def CR_def LF_def)
  qed
  then show ?thesis by (simp add: normalize_newlines_def replace_single)
qed

lemma canonical_scan_takeWhile:
  "canonical_scan (pre @ ls) (length pre) ls =
     (if list_ex is_sign_line_b ls
      then Some (join [LF] (pre @ takeWhile (\<lambda>l. \<not> is_sign_line_b l) ls))
      else None)"
proof (induction ls arbitrary: pre)
  case Nil
  then show ?case by simp
next
  case (Cons l ls)
  from Cons [of "pre @ [l]"] show ?case by simp
qed

section \<open>The claims\<close>

text \<open>
  Claim C4.  For every byte string, the canonical bytes computed by \<open>canonical_bytes\<close> are
  those of the specification: a leading UTF-8 byte-order mark is removed, every CRLF and
  every lone CR becomes LF, the content is split on LF, and if some line, left-stripped and
  lower-cased, begins with \<open>sign:\<close> the result is the lines strictly before the first such
  line joined with LF, otherwise the whole normalized content.
\<close>

theorem canonical_bytes_spec: "canonical_bytes file = canonical_spec file"
proof -
  have "canonical_scan ls 0 ls =
      (if list_ex is_sign_line_b ls
       then Some (join [LF] (takeWhile (\<lambda>l. \<not> is_sign_line_b l) ls)) else None)" for ls
    using canonical_scan_takeWhile [of "[]" ls] by simp
  moreover have "length BOM = 3"
    by (simp add: BOM_def)
  then have "remove_bom file = (if take 3 file = BOM then drop 3 file else file)"
    by (simp add: remove_bom_def startswith_def)
  ultimately show ?thesis
    by (simp add: canonical_bytes_def canonical_spec_def normalize_newlines_spec Let_def)
qed

end
